theory Spec2Isabelle
  imports Complex_Main "HOL-Library.Word"
begin

section \<open>Machine numbers\<close>

text \<open>
  The embedding follows \<^verbatim>\<open>pack.h\<close> (class \<^verbatim>\<open>pack\<close>) and
  \<^verbatim>\<open>parallel_pack_strategy.h\<close> (class \<^verbatim>\<open>parallel_pack_strategy\<close>). Its numbers
  are the numbers of the machine:
  \<^item> a C++ \<^verbatim>\<open>double\<close> is a value of the type \<open>double\<close> below, IEEE 754 binary64
    with round to nearest, ties to even, on every operation;
  \<^item> a C++ \<^verbatim>\<open>int\<close> is an \<^typ>\<open>int\<close> in the range of 32 bits; the results of the
    additions and subtractions of \<^verbatim>\<open>pack\<close> are wrapped into that range (\<open>int32\<close>);
  \<^item> \<^verbatim>\<open>size_t\<close> is a \<^typ>\<open>nat\<close>, \<^verbatim>\<open>unsigned int\<close> is a \<^typ>\<open>32 word\<close>.
\<close>

subsection \<open>Rounding to binary64\<close>

text \<open>
  \<open>binade a\<close> is the exponent \<open>e\<close> with \<open>2^e \<le> a < 2^(e + 1)\<close>, kept within
  \<open>-1022 \<dots> 1024\<close>: below \<open>2^-1022\<close> lie the subnormal numbers, which share the
  exponent \<open>-1022\<close>, and from \<open>2^1024\<close> on a number is out of range. It is found by
  bisection.
\<close>

function binade_between :: "int \<Rightarrow> int \<Rightarrow> real \<Rightarrow> int" where
  "binade_between lo hi a =
     (if hi \<le> lo then lo
      else let mid = (lo + hi + 1) div 2
           in if 2 powi mid \<le> a then binade_between mid hi a
              else binade_between lo (mid - 1) a)"
  by pat_completeness auto
termination
  by (relation "measure (\<lambda>(lo, hi, a). nat (hi - lo))") auto

definition binade :: "real \<Rightarrow> int" where
  "binade a = binade_between (- 1022) 1024 a"

text \<open>The integer nearest to \<open>r\<close>; of two nearest integers the even one.\<close>

definition round_even :: "real \<Rightarrow> int" where
  "round_even r =
     (let f = \<lfloor>r\<rfloor>; d = r - of_int f
      in if d < 1 / 2 then f else if 1 / 2 < d then f + 1 else if even f then f else f + 1)"

text \<open>
  \<open>fl x\<close> is \<open>x\<close> rounded to 53 significant bits: the nearest multiple of
  \<open>2^(e - 52)\<close> for the exponent \<open>e\<close> of \<open>x\<close>.
\<close>

definition fl :: "real \<Rightarrow> real" where
  "fl x = (let q = 2 powi (binade \<bar>x\<bar> - 52) in of_int (round_even (x / q)) * q)"

subsection \<open>The type \<^verbatim>\<open>double\<close>\<close>

text \<open>
  A double is a finite number, an infinity or a NaN. The two zeros of the format are
  one value here: they compare equal, and the source never divides by a zero, which is
  the one operation that tells them apart. A finite value that comes out of an
  operation is a number of the format; a value \<open>Finite x\<close> for any other \<open>x\<close> is not
  a double of the machine, and \<open>is_double\<close> says which values are.
\<close>

datatype double = Finite real | PlusInf | MinusInf | NaN

definition is_double :: "double \<Rightarrow> bool" where
  "is_double d = (case d of Finite x \<Rightarrow> fl x = x \<and> \<bar>x\<bar> < 2 ^ 1024 | _ \<Rightarrow> True)"

text \<open>The result of an operation whose exact result is the real \<open>x\<close>.\<close>

definition round_to_double :: "real \<Rightarrow> double" where
  "round_to_double x =
     (let r = fl x
      in if 2 ^ 1024 \<le> r then PlusInf else if r \<le> - (2 ^ 1024) then MinusInf else Finite r)"

text \<open>
  The arithmetic operators and the comparisons \<^verbatim>\<open><\<close> and \<^verbatim>\<open><=\<close> of C++ on
  doubles. A comparison with a NaN is false. The operator \<^verbatim>\<open>==\<close> occurs in the
  source only as \<^verbatim>\<open>weight == 0.0\<close>, which is the equality with \<open>Finite 0\<close>.
\<close>

instantiation double :: "{zero, plus, minus, times, inverse, ord}"
begin

definition zero_double :: double where
  "zero_double = Finite 0"

fun plus_double :: "double \<Rightarrow> double \<Rightarrow> double" where
  "plus_double NaN b = NaN"
| "plus_double a NaN = NaN"
| "plus_double PlusInf MinusInf = NaN"
| "plus_double MinusInf PlusInf = NaN"
| "plus_double PlusInf b = PlusInf"
| "plus_double a PlusInf = PlusInf"
| "plus_double MinusInf b = MinusInf"
| "plus_double a MinusInf = MinusInf"
| "plus_double (Finite x) (Finite y) = round_to_double (x + y)"

fun minus_double :: "double \<Rightarrow> double \<Rightarrow> double" where
  "minus_double NaN b = NaN"
| "minus_double a NaN = NaN"
| "minus_double PlusInf PlusInf = NaN"
| "minus_double MinusInf MinusInf = NaN"
| "minus_double PlusInf b = PlusInf"
| "minus_double a PlusInf = MinusInf"
| "minus_double MinusInf b = MinusInf"
| "minus_double a MinusInf = PlusInf"
| "minus_double (Finite x) (Finite y) = round_to_double (x - y)"

fun times_double :: "double \<Rightarrow> double \<Rightarrow> double" where
  "times_double NaN b = NaN"
| "times_double a NaN = NaN"
| "times_double (Finite x) (Finite y) = round_to_double (x * y)"
| "times_double (Finite x) PlusInf =
     (if x = 0 then NaN else if 0 < x then PlusInf else MinusInf)"
| "times_double (Finite x) MinusInf =
     (if x = 0 then NaN else if 0 < x then MinusInf else PlusInf)"
| "times_double PlusInf (Finite y) =
     (if y = 0 then NaN else if 0 < y then PlusInf else MinusInf)"
| "times_double MinusInf (Finite y) =
     (if y = 0 then NaN else if 0 < y then MinusInf else PlusInf)"
| "times_double PlusInf PlusInf = PlusInf"
| "times_double PlusInf MinusInf = MinusInf"
| "times_double MinusInf PlusInf = MinusInf"
| "times_double MinusInf MinusInf = PlusInf"

text \<open>A finite number divided by zero is taken for the zero of positive sign.\<close>

fun divide_double :: "double \<Rightarrow> double \<Rightarrow> double" where
  "divide_double NaN b = NaN"
| "divide_double a NaN = NaN"
| "divide_double (Finite x) (Finite y) =
     (if y = 0 then (if x = 0 then NaN else if 0 < x then PlusInf else MinusInf)
      else round_to_double (x / y))"
| "divide_double (Finite x) PlusInf = Finite 0"
| "divide_double (Finite x) MinusInf = Finite 0"
| "divide_double PlusInf (Finite y) = (if 0 \<le> y then PlusInf else MinusInf)"
| "divide_double MinusInf (Finite y) = (if 0 \<le> y then MinusInf else PlusInf)"
| "divide_double PlusInf b = NaN"
| "divide_double MinusInf b = NaN"

definition inverse_double :: "double \<Rightarrow> double" where
  "inverse_double a = divide (Finite 1) a"

fun less_double :: "double \<Rightarrow> double \<Rightarrow> bool" where
  "less_double (Finite x) (Finite y) = (x < y)"
| "less_double (Finite x) PlusInf = True"
| "less_double MinusInf (Finite y) = True"
| "less_double MinusInf PlusInf = True"
| "less_double a b = False"

fun less_eq_double :: "double \<Rightarrow> double \<Rightarrow> bool" where
  "less_eq_double (Finite x) (Finite y) = (x \<le> y)"
| "less_eq_double (Finite x) PlusInf = True"
| "less_eq_double MinusInf (Finite y) = True"
| "less_eq_double MinusInf PlusInf = True"
| "less_eq_double PlusInf PlusInf = True"
| "less_eq_double MinusInf MinusInf = True"
| "less_eq_double PlusInf (Finite y) = False"
| "less_eq_double PlusInf MinusInf = False"
| "less_eq_double (Finite x) MinusInf = False"
| "less_eq_double NaN b = False"
| "less_eq_double a NaN = False"

instance ..

end

text \<open>\<^verbatim>\<open>std::max(a, b)\<close> is \<^verbatim>\<open>(a < b) ? b : a\<close>.\<close>

definition std_max :: "double \<Rightarrow> double \<Rightarrow> double" where
  "std_max a b = (if a < b then b else a)"

text \<open>The conversion of an \<^verbatim>\<open>int\<close> to \<^verbatim>\<open>double\<close>; it is exact for 32 bits.\<close>

definition double_of_int :: "int \<Rightarrow> double" where
  "double_of_int n = round_to_double (of_int n)"

text \<open>The literals \<^verbatim>\<open>0.1\<close> and \<^verbatim>\<open>1e-9\<close>: the doubles nearest to the decimal numbers.\<close>

definition tenth :: double where
  "tenth = round_to_double (1 / 10)"

definition epsilon :: double where
  "epsilon = round_to_double (1 / 10 ^ 9)"

subsection \<open>The type \<^verbatim>\<open>int\<close>\<close>

definition is_int :: "int \<Rightarrow> bool" where
  "is_int n = (- (2 ^ 31) \<le> n \<and> n < 2 ^ 31)"

text \<open>
  The 32-bit result of an \<^verbatim>\<open>int\<close> addition or subtraction whose exact result is \<open>n\<close>.
  C++ leaves signed overflow undefined; the machine wraps around.
\<close>

definition int32 :: "int \<Rightarrow> int" where
  "int32 n = (n + 2 ^ 31) mod 2 ^ 32 - 2 ^ 31"

text \<open>
  \<^verbatim>\<open>static_cast<int>(x)\<close> for a double \<open>x\<close>: the fractional part is discarded. When the
  truncated value does not fit an \<^verbatim>\<open>int\<close>, and for an infinity or a NaN, C++ leaves
  the conversion undefined; the conversion instruction of x86 (\<^verbatim>\<open>cvttsd2si\<close>) then
  yields \<^verbatim>\<open>INT_MIN\<close>, and so does the model.
\<close>

definition static_cast_int :: "double \<Rightarrow> int" where
  "static_cast_int d =
     (case d of
        Finite x \<Rightarrow>
          (let t = (if 0 \<le> x then \<lfloor>x\<rfloor> else \<lceil>x\<rceil>)
           in if is_int t then t else - (2 ^ 31))
      | _ \<Rightarrow> - (2 ^ 31))"

section \<open>Pack planner: data model\<close>

text \<open>
  Modelled from the spec: the class \<^verbatim>\<open>item\<close> of \<^verbatim>\<open>item.h\<close>, which is not among the
  sources. An item is an immutable value with an id, a length, a quantity and a weight
  per piece; the fields carry the names of its accessors.
\<close>

record item =
  get_id :: int
  get_length :: int
  get_quantity :: int
  get_weight :: double

text \<open>
  Modelled from the spec: \<^verbatim>\<open>item::get_total_weight\<close> of \<^verbatim>\<open>item.h\<close>, the derived
  value \<open>total_weight = quantity * weight\<close>, a product of doubles.
\<close>

definition get_total_weight :: "item \<Rightarrow> double" where
  "get_total_weight i = double_of_int (get_quantity i) * get_weight i"

text \<open>
  Modelled from the spec: the constructor \<^verbatim>\<open>item(id, length, quantity, weight)\<close> of
  \<^verbatim>\<open>item.h\<close>, used by \<^verbatim>\<open>emplace_back\<close>; it stores its four arguments.
\<close>

definition new_item :: "int \<Rightarrow> int \<Rightarrow> int \<Rightarrow> double \<Rightarrow> item" where
  "new_item ident len qty w =
     \<lparr>get_id = ident, get_length = len, get_quantity = qty, get_weight = w\<rparr>"

record pack =
  m_pack_number :: int
  m_items :: "item list"
  m_total_items :: int
  m_total_weight :: double
  m_max_length :: int

text \<open>The constructor \<^verbatim>\<open>pack(int pack_number)\<close> with the default member initialisers.\<close>

definition new_pack :: "int \<Rightarrow> pack" where
  "new_pack pack_number =
     \<lparr>m_pack_number = pack_number, m_items = [], m_total_items = 0,
      m_total_weight = 0, m_max_length = 0\<rparr>"

definition is_empty :: "pack \<Rightarrow> bool" where
  "is_empty p = (m_items p = [])"

definition is_full :: "pack \<Rightarrow> int \<Rightarrow> double \<Rightarrow> bool" where
  "is_full p max_items max_weight =
     (max_items \<le> m_total_items p \<or> max_weight - epsilon \<le> m_total_weight p)"

subsection \<open>Whole-item insertion\<close>

definition add_item :: "pack \<Rightarrow> item \<Rightarrow> int \<Rightarrow> double \<Rightarrow> bool \<times> pack" where
  "add_item p i max_items max_weight =
     (let new_quantity = int32 (m_total_items p + get_quantity i);
          new_weight = m_total_weight p + get_total_weight i
      in if new_quantity \<le> max_items \<and> new_weight \<le> max_weight
         then (True, p\<lparr>m_items := m_items p @ [i],
                        m_total_items := new_quantity,
                        m_total_weight := new_weight,
                        m_max_length := max (m_max_length p) (get_length i)\<rparr>)
         else (False, p))"

subsection \<open>Partial insertion\<close>

text \<open>
  \<^verbatim>\<open>pack::add_partial_item(id, length, quantity, weight, max_items, max_weight)\<close>.
  The method mutates the pack and returns the number of pieces added; the model returns
  that number together with the pack after the call.
\<close>

definition add_partial_item ::
  "pack \<Rightarrow> int \<Rightarrow> int \<Rightarrow> int \<Rightarrow> double \<Rightarrow> int \<Rightarrow> double \<Rightarrow> int \<times> pack" where
  "add_partial_item p ident len qty w max_items max_weight =
     (if qty \<le> 0 \<or> max_items \<le> 0 \<or> max_weight < 0 then (0, p)
      else
        let length' = max 1 len;
            weight' = std_max 0 w;
            max_by_items = int32 (max_items - m_total_items p);
            weight_remaining = max_weight - m_total_weight p;
            max_by_weight =
              (if weight' = 0 then qty else static_cast_int (weight_remaining / weight'));
            safe_max_by_weight = max 0 max_by_weight;
            can_add = min max_by_items (min safe_max_by_weight qty)
        in if can_add > 0
           then (can_add,
                 p\<lparr>m_items := m_items p @ [new_item ident length' can_add weight'],
                   m_total_items := int32 (m_total_items p + can_add),
                   m_total_weight := m_total_weight p + double_of_int can_add * weight',
                   m_max_length := max (m_max_length p) length'\<rparr>)
           else (can_add, p))"

section \<open>The parallel strategy\<close>

subsection \<open>Thread count\<close>

text \<open>
  The constructor \<^verbatim>\<open>parallel_pack_strategy(int thread_count = 4)\<close>. The argument is
  optional in the source: \<open>None\<close> stands for a call that leaves it out. The member
  \<^verbatim>\<open>m_num_threads\<close> is an \<^verbatim>\<open>unsigned int\<close>, initialised from the \<^verbatim>\<open>int\<close> argument
  by the conversion modulo \<open>2 ^ 32\<close>, which takes a negative count to a large one. The value of
  \<^verbatim>\<open>std::thread::hardware_concurrency()\<close> belongs to the environment and is a parameter.
  The function returns \<^verbatim>\<open>m_num_threads\<close> after construction.
\<close>

definition parallel_pack_strategy :: "32 word \<Rightarrow> int option \<Rightarrow> 32 word" where
  "parallel_pack_strategy hardware_concurrency thread_count =
     (let m_num_threads = word_of_int (case thread_count of None \<Rightarrow> 4 | Some n \<Rightarrow> n)
      in if m_num_threads = 0 then hardware_concurrency else m_num_threads)"

text \<open>
  The first statement of \<^verbatim>\<open>pack_items\<close> after the constraints:
  \<^verbatim>\<open>m_num_threads = std::min(32u, std::max(1u, m_num_threads))\<close>.
\<close>

definition limit_num_threads :: "32 word \<Rightarrow> 32 word" where
  "limit_num_threads m_num_threads = min 32 (max 1 m_num_threads)"

subsection \<open>The sequential branch of \<^verbatim>\<open>pack_items\<close>\<close>

text \<open>
  Which statement ended the inner \<^verbatim>\<open>while\<close> loop of an item: the loop condition
  (\<open>Completed\<close>) or one of its four \<^verbatim>\<open>break\<close> statements; \<open>Skipped\<close> marks an item
  that the \<^verbatim>\<open>continue\<close> of the outer loop passed over. The log of these exits is a
  ghost field: the source has no such variable, and nothing in the model reads it.
\<close>

datatype loop_exit =
    Skipped | Completed | Iteration_limit | Too_heavy | Empty_pack | Pack_limit

record fill_state =
  packs :: "pack list"
  pack_number :: int
  safety_counter :: int
  exit_log :: "loop_exit list"

definition max_iterations :: int where
  "max_iterations = 1000000"

text \<open>
  The inner loop \<^verbatim>\<open>while (remaining_quantity > 0)\<close>. \<^verbatim>\<open>packs.back()\<close> is a reference:
  the pack after \<^verbatim>\<open>add_partial_item\<close> replaces the last element of \<open>packs\<close>. The
  counters of the loop stay far inside 32 bits (\<open>safety_counter\<close> ends at
  \<open>max_iterations + 1\<close>, \<open>pack_number\<close> at the number of packs, and what is taken
  from \<open>remaining_quantity\<close> is positive and at most \<open>remaining_quantity\<close>), so their
  arithmetic is that of the integers.
\<close>

function sequential_while ::
  "item \<Rightarrow> int \<Rightarrow> double \<Rightarrow> nat \<Rightarrow> int \<Rightarrow> fill_state \<Rightarrow> fill_state" where
  "sequential_while i max_items max_weight max_safe_reserve remaining_quantity s =
     (if remaining_quantity > 0 then
        let s1 = s\<lparr>safety_counter := safety_counter s + 1\<rparr> in
        if safety_counter s1 > max_iterations
        then s1\<lparr>exit_log := exit_log s1 @ [Iteration_limit]\<rparr>
        else
          let current_pack = last (packs s1);
              r = add_partial_item current_pack (get_id i) (get_length i)
                    remaining_quantity (get_weight i) max_items max_weight;
              added_quantity = fst r;
              s2 = s1\<lparr>packs := butlast (packs s1) @ [snd r]\<rparr>
          in if added_quantity > 0
             then sequential_while i max_items max_weight max_safe_reserve
                    (remaining_quantity - added_quantity) s2
             else if get_weight i > max_weight
             then s2\<lparr>exit_log := exit_log s2 @ [Too_heavy]\<rparr>
             else if is_empty (snd r)
             then s2\<lparr>exit_log := exit_log s2 @ [Empty_pack]\<rparr>
             else if length (packs s2) \<ge> max_safe_reserve
             then s2\<lparr>exit_log := exit_log s2 @ [Pack_limit]\<rparr>
             else sequential_while i max_items max_weight max_safe_reserve remaining_quantity
                    (s2\<lparr>pack_number := pack_number s2 + 1,
                        packs := packs s2 @ [new_pack (pack_number s2 + 1)]\<rparr>)
      else s\<lparr>exit_log := exit_log s @ [Completed]\<rparr>)"
  by pat_completeness auto
termination
  by (relation "measure (\<lambda>(i, max_items, max_weight, max_safe_reserve, remaining_quantity, s).
                   nat (max_iterations - safety_counter s))")
     (auto simp: Let_def)

text \<open>The outer loop \<^verbatim>\<open>for (const auto& i : items)\<close>.\<close>

fun sequential_for ::
  "item list \<Rightarrow> int \<Rightarrow> double \<Rightarrow> nat \<Rightarrow> fill_state \<Rightarrow> fill_state" where
  "sequential_for [] max_items max_weight max_safe_reserve s = s"
| "sequential_for (i # rest) max_items max_weight max_safe_reserve s =
     (if get_quantity i \<le> 0
      then sequential_for rest max_items max_weight max_safe_reserve
             (s\<lparr>exit_log := exit_log s @ [Skipped]\<rparr>)
      else sequential_for rest max_items max_weight max_safe_reserve
             (sequential_while i max_items max_weight max_safe_reserve (get_quantity i) s))"

text \<open>
  The body of the branch \<^verbatim>\<open>if (items.size() < 5000 || m_num_threads == 1)\<close>, entered
  with the constraints already normalised; the state at its \<^verbatim>\<open>return packs\<close>.
\<close>

definition sequential_fill :: "item list \<Rightarrow> int \<Rightarrow> double \<Rightarrow> fill_state" where
  "sequential_fill items max_items max_weight =
     (let max_safe_reserve = min 100000 (length items div 10 + 1000)
      in sequential_for items max_items max_weight max_safe_reserve
           \<lparr>packs = [new_pack 1], pack_number = 1, safety_counter = 0, exit_log = []\<rparr>)"

subsection \<open>The worker threads\<close>

text \<open>
  A worker shares two objects with the other threads: the atomic counter
  \<^verbatim>\<open>next_pack_number\<close> and, under the mutex, \<^verbatim>\<open>result_packs\<close>. What
  \<^verbatim>\<open>fetch_add\<close> returns depends on the interleaving, so the values a worker receives
  are a parameter: \<open>fetch k\<close> is the result of its \<open>k\<close>-th call, counted from 0. The field
  \<open>fetch_count\<close> counts the calls made so far.
\<close>

record worker_state =
  local_packs :: "pack list"
  local_pack_number :: int
  local_safety_counter :: int
  fetch_count :: nat

definition worker_max_iterations :: int where
  "worker_max_iterations = 500000"

function worker_while ::
  "(nat \<Rightarrow> int) \<Rightarrow> item \<Rightarrow> int \<Rightarrow> double \<Rightarrow> nat \<Rightarrow> int \<Rightarrow> worker_state \<Rightarrow> worker_state" where
  "worker_while fetch i max_items max_weight max_safe_reserve remaining_quantity s =
     (if remaining_quantity > 0 then
        let s1 = s\<lparr>local_safety_counter := local_safety_counter s + 1\<rparr> in
        if local_safety_counter s1 > worker_max_iterations then s1
        else
          let current_pack = last (local_packs s1);
              r = add_partial_item current_pack (get_id i) (get_length i)
                    remaining_quantity (get_weight i) max_items max_weight;
              added_quantity = fst r;
              s2 = s1\<lparr>local_packs := butlast (local_packs s1) @ [snd r]\<rparr>
          in if added_quantity > 0
             then worker_while fetch i max_items max_weight max_safe_reserve
                    (remaining_quantity - added_quantity) s2
             else if get_weight i > max_weight then s2
             else if is_empty (snd r) then s2
             else if length (local_packs s2) \<ge> max_safe_reserve then s2
             else worker_while fetch i max_items max_weight max_safe_reserve remaining_quantity
                    (s2\<lparr>local_pack_number := fetch (fetch_count s2),
                        fetch_count := fetch_count s2 + 1,
                        local_packs := local_packs s2 @ [new_pack (fetch (fetch_count s2))]\<rparr>)
      else s)"
  by pat_completeness auto
termination
  by (relation "measure (\<lambda>(fetch, i, max_items, max_weight, max_safe_reserve,
                           remaining_quantity, s).
                   nat (worker_max_iterations - local_safety_counter s))")
     (auto simp: Let_def)

fun worker_for ::
  "(nat \<Rightarrow> int) \<Rightarrow> item list \<Rightarrow> int \<Rightarrow> double \<Rightarrow> nat \<Rightarrow> worker_state \<Rightarrow> worker_state" where
  "worker_for fetch [] max_items max_weight max_safe_reserve s = s"
| "worker_for fetch (i # rest) max_items max_weight max_safe_reserve s =
     (if get_quantity i \<le> 0
      then worker_for fetch rest max_items max_weight max_safe_reserve s
      else worker_for fetch rest max_items max_weight max_safe_reserve
             (worker_while fetch i max_items max_weight max_safe_reserve (get_quantity i) s))"

text \<open>
  \<^verbatim>\<open>worker_thread\<close>: the fill of the items \<open>start_idx ..< end_idx\<close> into local packs,
  then the merge into \<open>result_packs\<close> under the mutex. The function returns
  \<open>result_packs\<close> after the merge.
\<close>

definition worker_thread ::
  "(nat \<Rightarrow> int) \<Rightarrow> item list \<Rightarrow> nat \<Rightarrow> nat \<Rightarrow> int \<Rightarrow> double \<Rightarrow> pack list \<Rightarrow> pack list" where
  "worker_thread fetch items start_idx end_idx max_items0 max_weight0 result_packs =
     (let max_items = max 1 max_items0;
          max_weight = std_max tenth max_weight0;
          max_safe_reserve = min 20000 ((end_idx - start_idx) div 10 + 500);
          s = worker_for fetch (take (end_idx - start_idx) (drop start_idx items))
                max_items max_weight max_safe_reserve
                \<lparr>local_packs = [new_pack (fetch 0)], local_pack_number = fetch 0,
                 local_safety_counter = 0, fetch_count = 1\<rparr>;
          max_total_packs = min 200000 (length items div 5 + 10000)
      in if length result_packs < max_total_packs
         then result_packs @
                take (min (length (local_packs s)) (max_total_packs - length result_packs))
                  (local_packs s)
         else result_packs)"

subsection \<open>\<^verbatim>\<open>pack_items\<close>\<close>

text \<open>
  The loop that starts the threads gives thread \<open>i\<close> the index range that begins where
  the range of thread \<open>i - 1\<close> ended; \<open>thread_ranges\<close> lists the ranges of the threads
  \<open>i, i + 1, \<dots>\<close> for \<open>n\<close> remaining threads.
\<close>

fun thread_ranges :: "nat \<Rightarrow> nat \<Rightarrow> nat \<Rightarrow> nat \<Rightarrow> nat \<Rightarrow> (nat \<times> nat) list" where
  "thread_ranges chunk_size remainder i 0 start_idx = []"
| "thread_ranges chunk_size remainder i (Suc n) start_idx =
     (let thread_chunk_size = chunk_size + (if i < remainder then 1 else 0);
          end_idx = start_idx + thread_chunk_size
      in (start_idx, end_idx) # thread_ranges chunk_size remainder (i + 1) n end_idx)"

text \<open>
  The threads fill their local packs independently and append them to \<open>result_packs\<close>
  one at a time, in the order in which they take the mutex. That order is the
  parameter \<open>merge_order\<close>, a list of thread indices; \<open>fetch t\<close> are the pack numbers
  thread \<open>t\<close> draws. An index that names no thread merges nothing.
\<close>

definition parallel_fill ::
  "nat list \<Rightarrow> (nat \<Rightarrow> nat \<Rightarrow> int) \<Rightarrow> nat \<Rightarrow> item list \<Rightarrow> int \<Rightarrow> double \<Rightarrow> pack list" where
  "parallel_fill merge_order fetch num_threads items max_items max_weight =
     (let chunk_size = length items div num_threads;
          remainder = length items mod num_threads;
          ranges = thread_ranges chunk_size remainder 0 num_threads 0
      in foldl (\<lambda>result_packs t.
                  if t < length ranges
                  then worker_thread (fetch t) items (fst (ranges ! t)) (snd (ranges ! t))
                         max_items max_weight result_packs
                  else result_packs)
           [] merge_order)"

text \<open>
  \<^verbatim>\<open>parallel_pack_strategy::pack_items\<close>, for a strategy object whose member
  \<^verbatim>\<open>m_num_threads\<close> has the given value. In the sequential branch the result does not
  depend on \<open>merge_order\<close> and \<open>fetch\<close>.
\<close>

definition pack_items ::
  "32 word \<Rightarrow> nat list \<Rightarrow> (nat \<Rightarrow> nat \<Rightarrow> int) \<Rightarrow> item list \<Rightarrow> int \<Rightarrow> double \<Rightarrow> pack list" where
  "pack_items m_num_threads merge_order fetch items max_items0 max_weight0 =
     (let max_items = max 1 max_items0;
          max_weight = std_max tenth max_weight0;
          num_threads = limit_num_threads m_num_threads
      in if length items < 5000 \<or> num_threads = 1
         then packs (sequential_fill items max_items max_weight)
         else parallel_fill merge_order fetch (unat num_threads) items max_items max_weight)"

section \<open>The sequential strategy of the specification\<close>

text \<open>
  Modelled from the spec: the sequential strategy (section 4.2 of the specification,
  \<open>SequentialStrategy\<close>), whose class is not among the sources. It is a state machine
  over the list of items with one current pack: the packs opened earlier are \<open>finished\<close>,
  in the order of their creation, and \<open>iterations\<close> is the bounded iteration counter.
\<close>

record spec_state =
  finished :: "pack list"
  current :: pack
  iterations :: nat

text \<open>
  Modelled from the spec: step 3 of section 4.2 for one item, \<open>while remaining > 0\<close>.
  (a) accept on the current pack with \<open>remaining\<close> as the requested quantity; (b) if
  something was accepted, subtract it and go on; (c) otherwise drop the item when it is
  heavier than \<open>max_weight\<close>, drop it when the current pack is empty, else open a new
  pack with the next sequential number and retry. The one safety device of the section
  is the bounded iteration counter; the specification fixes no value for it (on the
  order of \<open>10^6\<close> across the whole run), so the ceiling is a parameter. Reaching it
  ends the loop of the item. There is no ceiling on the number of packs.
\<close>

function spec_fill_item ::
  "nat \<Rightarrow> item \<Rightarrow> int \<Rightarrow> double \<Rightarrow> int \<Rightarrow> spec_state \<Rightarrow> spec_state" where
  "spec_fill_item iteration_ceiling i max_items max_weight remaining st =
     (if remaining \<le> 0 then st
      else if iteration_ceiling \<le> iterations st then st
      else
        let (accepted, pack') =
              add_partial_item (current st) (get_id i) (get_length i) remaining (get_weight i)
                max_items max_weight;
            st' = st\<lparr>current := pack', iterations := iterations st + 1\<rparr>
        in if accepted > 0
           then spec_fill_item iteration_ceiling i max_items max_weight (remaining - accepted) st'
           else if max_weight < get_weight i then st'
           else if m_items pack' = [] then st'
           else spec_fill_item iteration_ceiling i max_items max_weight remaining
                  (st'\<lparr>finished := finished st' @ [pack'],
                       current := new_pack (int (length (finished st')) + 2)\<rparr>))"
  by pat_completeness auto
termination
  by (relation "measure (\<lambda>(iteration_ceiling, i, max_items, max_weight, remaining, st).
                   iteration_ceiling - iterations st)")
     auto

text \<open>
  Modelled from the spec: step 3 of section 4.2 over the items in input order; items
  with \<open>quantity \<le> 0\<close> are skipped.
\<close>

fun spec_fill_items ::
  "nat \<Rightarrow> item list \<Rightarrow> int \<Rightarrow> double \<Rightarrow> spec_state \<Rightarrow> spec_state" where
  "spec_fill_items iteration_ceiling [] max_items max_weight st = st"
| "spec_fill_items iteration_ceiling (i # rest) max_items max_weight st =
     (if get_quantity i \<le> 0
      then spec_fill_items iteration_ceiling rest max_items max_weight st
      else spec_fill_items iteration_ceiling rest max_items max_weight
             (spec_fill_item iteration_ceiling i max_items max_weight (get_quantity i) st))"

text \<open>
  Modelled from the spec: steps 1, 2 and 4 of section 4.2. The constraints are
  normalised, pack 1 is the first current pack, and the result is the list of all packs
  in creation order.
\<close>

definition sequential_strategy ::
  "nat \<Rightarrow> item list \<Rightarrow> int \<Rightarrow> double \<Rightarrow> pack list" where
  "sequential_strategy iteration_ceiling items max_items0 max_weight0 =
     (let max_items = max 1 max_items0;
          max_weight = std_max tenth max_weight0;
          st = spec_fill_items iteration_ceiling items max_items max_weight
                 \<lparr>finished = [], current = new_pack 1, iterations = 0\<rparr>
      in finished st @ [current st])"

section \<open>Properties of the rounding\<close>

declare binade_between.simps [simp del]

text \<open>The rules that evaluate \<open>fl\<close> at a given number.\<close>

lemmas fl_eval = fl_def binade_def binade_between.simps round_even_def Let_def

lemma binade_between_spec:
  "lo \<le> hi \<Longrightarrow>
     lo \<le> binade_between lo hi a \<and> binade_between lo hi a \<le> hi \<and>
     (binade_between lo hi a \<noteq> lo \<longrightarrow> 2 powi (binade_between lo hi a) \<le> a) \<and>
     (binade_between lo hi a \<noteq> hi \<longrightarrow> a < 2 powi (binade_between lo hi a + 1))"
proof (induction lo hi a rule: binade_between.induct)
  case (1 lo hi a)
  show ?case
  proof (cases "hi \<le> lo")
    case True
    with "1.prems" show ?thesis
      by (subst binade_between.simps, subst binade_between.simps,
          subst binade_between.simps, subst binade_between.simps,
          subst binade_between.simps, subst binade_between.simps) simp
  next
    case False
    define mid where "mid = (lo + hi + 1) div 2"
    have mid: "lo < mid" "mid \<le> hi"
      using False by (simp_all add: mid_def)
    show ?thesis
    proof (cases "2 powi mid \<le> a")
      case True
      have eq: "binade_between lo hi a = binade_between mid hi a"
        using False True by (subst binade_between.simps) (simp add: mid_def Let_def)
      have IH: "mid \<le> binade_between mid hi a \<and> binade_between mid hi a \<le> hi \<and>
         (binade_between mid hi a \<noteq> mid \<longrightarrow> 2 powi (binade_between mid hi a) \<le> a) \<and>
         (binade_between mid hi a \<noteq> hi \<longrightarrow> a < 2 powi (binade_between mid hi a + 1))"
        using "1.IH"(1) [OF False mid_def True] mid by simp
      show ?thesis
        unfolding eq using IH mid True by auto
    next
      case nle: False
      have eq: "binade_between lo hi a = binade_between lo (mid - 1) a"
        using False nle by (subst binade_between.simps) (simp add: mid_def Let_def)
      have IH: "lo \<le> binade_between lo (mid - 1) a \<and> binade_between lo (mid - 1) a \<le> mid - 1 \<and>
         (binade_between lo (mid - 1) a \<noteq> lo \<longrightarrow> 2 powi (binade_between lo (mid - 1) a) \<le> a) \<and>
         (binade_between lo (mid - 1) a \<noteq> mid - 1 \<longrightarrow> a < 2 powi (binade_between lo (mid - 1) a + 1))"
        using "1.IH"(2) [OF False mid_def nle] mid by simp
      show ?thesis
        unfolding eq using IH mid nle by (cases "binade_between lo (mid - 1) a = mid - 1") auto
    qed
  qed
qed

lemma binade_range: "- 1022 \<le> binade a" "binade a \<le> 1024"
  using binade_between_spec [of "- 1022" 1024 a] by (simp_all add: binade_def)

lemma binade_lower: "binade a \<noteq> - 1022 \<Longrightarrow> 2 powi (binade a) \<le> a"
  using binade_between_spec [of "- 1022" 1024 a] by (simp add: binade_def)

lemma binade_upper: "binade a \<noteq> 1024 \<Longrightarrow> a < 2 powi (binade a + 1)"
  using binade_between_spec [of "- 1022" 1024 a] by (simp add: binade_def)

lemma binade_mono:
  assumes "a \<le> b"
  shows "binade a \<le> binade b"
proof (rule ccontr)
  assume "\<not> binade a \<le> binade b"
  then have lt: "binade b < binade a"
    by simp
  have "binade b \<noteq> 1024"
    using lt binade_range(2) [of a] by simp
  then have "b < 2 powi (binade b + 1)"
    by (rule binade_upper)
  also have "(2::real) powi (binade b + 1) \<le> 2 powi (binade a)"
    using lt by (intro power_int_increasing) simp_all
  also have "2 powi (binade a) \<le> a"
    using lt binade_range(1) [of b] by (intro binade_lower) simp
  finally show False
    using assms by simp
qed

lemma round_even_of_int [simp]: "round_even (of_int n) = n"
  by (simp add: round_even_def)

lemma round_even_bounds: "\<lfloor>r\<rfloor> \<le> round_even r" "round_even r \<le> \<lfloor>r\<rfloor> + 1"
  by (simp_all add: round_even_def Let_def)

lemma round_even_mono:
  assumes "r \<le> s"
  shows "round_even r \<le> round_even s"
proof (cases "\<lfloor>r\<rfloor> = \<lfloor>s\<rfloor>")
  case True
  then show ?thesis
    using assms by (auto simp add: round_even_def Let_def)
next
  case False
  then have "\<lfloor>r\<rfloor> + 1 \<le> \<lfloor>s\<rfloor>"
    using floor_mono [OF assms] by simp
  then show ?thesis
    using round_even_bounds(2) [of r] round_even_bounds(1) [of s] by linarith
qed

lemma round_even_minus: "round_even (- r) = - round_even r"
proof (cases "r = of_int \<lfloor>r\<rfloor>")
  case True
  then obtain n where "r = of_int n" ..
  then have "- r = of_int (- n)"
    by simp
  then show ?thesis
    using \<open>r = of_int n\<close> by (simp only: round_even_of_int)
next
  case False
  have fl: "\<lfloor>- r\<rfloor> = - \<lfloor>r\<rfloor> - 1"
    using False by (simp add: floor_minus ceiling_altdef)
  show ?thesis
    unfolding round_even_def Let_def fl using False by auto
qed

lemma round_even_zero [simp]: "round_even 0 = 0"
  using round_even_of_int [of 0] by simp

lemma fl_zero [simp]: "fl 0 = 0"
  by (simp add: fl_def)

lemma fl_minus: "fl (- x) = - fl x"
  by (simp add: fl_def Let_def round_even_minus)

lemma fl_one [simp]: "fl 1 = 1"
  by (simp add: fl_eval)


lemma fl_nonneg:
  assumes "0 \<le> x"
  shows "0 \<le> fl x"
proof -
  have "0 \<le> x / 2 powi (binade \<bar>x\<bar> - 52)"
    using assms by simp
  then have "0 \<le> \<lfloor>x / 2 powi (binade \<bar>x\<bar> - 52)\<rfloor>"
    by simp
  then have "0 \<le> round_even (x / 2 powi (binade \<bar>x\<bar> - 52))"
    using round_even_bounds(1) [of "x / 2 powi (binade \<bar>x\<bar> - 52)"] by linarith
  then show ?thesis
    by (simp add: fl_def Let_def)
qed

lemma two_powi_split: "(2::real) powi (e + 1) = 2 ^ 53 * 2 powi (e - 52)"
proof -
  have "e + 1 = 53 + (e - 52)"
    by simp
  then have "(2::real) powi (e + 1) = 2 powi (53 + (e - 52))"
    by (rule arg_cong)
  also have "\<dots> = 2 powi 53 * 2 powi (e - 52)"
    by (subst power_int_add) simp_all
  finally show ?thesis
    by simp
qed

lemma two_powi_split': "(2::real) powi e = 2 ^ 52 * 2 powi (e - 52)"
proof -
  have "e = 52 + (e - 52)"
    by simp
  then have "(2::real) powi e = 2 powi (52 + (e - 52))"
    by (rule arg_cong)
  also have "\<dots> = 2 powi 52 * 2 powi (e - 52)"
    by (subst power_int_add) simp_all
  finally show ?thesis
    by simp
qed

text \<open>For a non-negative argument, the value of \<open>fl\<close> stays within the binade.\<close>

lemma fl_upper:
  assumes "0 \<le> x" and "binade x \<noteq> 1024"
  shows "fl x \<le> 2 powi (binade x + 1)"
proof -
  let ?q = "(2::real) powi (binade x - 52)"
  have "x < 2 powi (binade x + 1)"
    using assms(2) by (rule binade_upper)
  then have "x / ?q \<le> 2 ^ 53"
    by (simp add: two_powi_split pos_divide_le_eq)
  then have "round_even (x / ?q) \<le> round_even (of_int (2 ^ 53))"
    by (intro round_even_mono) simp
  then have "round_even (x / ?q) \<le> 2 ^ 53"
    by (simp only: round_even_of_int)
  then have "real_of_int (round_even (x / ?q)) \<le> 2 ^ 53"
    by simp
  then have "real_of_int (round_even (x / ?q)) * ?q \<le> 2 ^ 53 * ?q"
    by (intro mult_right_mono) simp_all
  then show ?thesis
    using assms(1) by (simp add: fl_def Let_def two_powi_split)
qed

lemma fl_lower:
  assumes "0 \<le> x" and "binade x \<noteq> - 1022"
  shows "2 powi (binade x) \<le> fl x"
proof -
  let ?q = "(2::real) powi (binade x - 52)"
  have "2 powi (binade x) \<le> x"
    using assms(2) by (rule binade_lower)
  then have "2 ^ 52 \<le> x / ?q"
    by (subst (asm) two_powi_split') (simp add: pos_le_divide_eq)
  then have "round_even (of_int (2 ^ 52)) \<le> round_even (x / ?q)"
    by (intro round_even_mono) simp
  then have "2 ^ 52 \<le> round_even (x / ?q)"
    by (simp only: round_even_of_int)
  then have "2 ^ 52 \<le> real_of_int (round_even (x / ?q))"
    by simp
  then have "2 ^ 52 * ?q \<le> real_of_int (round_even (x / ?q)) * ?q"
    by (intro mult_right_mono) simp_all
  then show ?thesis
    using assms(1) by (subst two_powi_split') (simp add: fl_def Let_def)
qed

lemma fl_mono_nonneg:
  assumes "0 \<le> x" and "x \<le> y"
  shows "fl x \<le> fl y"
proof (cases "binade x = binade y")
  case True
  let ?q = "(2::real) powi (binade y - 52)"
  have "x / ?q \<le> y / ?q"
    using assms(2) by (simp add: divide_right_mono)
  then have "round_even (x / ?q) \<le> round_even (y / ?q)"
    by (rule round_even_mono)
  then have "real_of_int (round_even (x / ?q)) * ?q \<le> real_of_int (round_even (y / ?q)) * ?q"
    by (intro mult_right_mono) simp_all
  then show ?thesis
    using assms True by (simp add: fl_def Let_def)
next
  case False
  then have lt: "binade x < binade y"
    using binade_mono [OF assms(2)] by simp
  have "binade x \<noteq> 1024"
    using lt binade_range(2) [of y] by simp
  then have "fl x \<le> 2 powi (binade x + 1)"
    using assms(1) by (intro fl_upper)
  also have "(2::real) powi (binade x + 1) \<le> 2 powi (binade y)"
    using lt by (intro power_int_increasing) simp_all
  also have "2 powi (binade y) \<le> fl y"
    using assms lt binade_range(1) [of x] by (intro fl_lower) simp_all
  finally show ?thesis .
qed

lemma fl_mono:
  assumes "x \<le> y"
  shows "fl x \<le> fl y"
proof (cases "0 \<le> x")
  case True
  then show ?thesis
    using assms by (rule fl_mono_nonneg)
next
  case False
  show ?thesis
  proof (cases "0 \<le> y")
    case True
    have "0 \<le> fl (- x)"
      using False by (intro fl_nonneg) simp
    then have "fl x \<le> 0"
      by (simp add: fl_minus)
    also have "0 \<le> fl y"
      using True by (rule fl_nonneg)
    finally show ?thesis .
  next
    case y: False
    have "fl (- y) \<le> fl (- x)"
      using assms y by (intro fl_mono_nonneg) simp_all
    then show ?thesis
      by (simp add: fl_minus)
  qed
qed

lemma fl_ge_one: "1 \<le> x \<Longrightarrow> 1 \<le> fl x"
  using fl_mono [of 1 x] by simp

text \<open>
  Two neighbouring values of the format differ by at least one unit in the last place:
  below a positive value \<open>y\<close> of the format there is no value of the format above
  \<open>y * (1 - 2^-53)\<close>.
\<close>

lemma fl_gap:
  assumes x: "fl x = x" and y: "fl y = y" and "0 \<le> x" and "x < y" and "y < 2 ^ 1024"
  shows "x \<le> y * (1 - 1 / 2 ^ 53)"
proof -
  define qx :: real where "qx = 2 powi (binade x - 52)"
  define qy :: real where "qy = 2 powi (binade y - 52)"
  define nx where "nx = round_even (x / qx)"
  define ny where "ny = round_even (y / qy)"
  have q: "0 < qx" "0 < qy"
    by (simp_all add: qx_def qy_def)
  have ypos: "0 < y" "0 \<le> y"
    using assms by simp_all
  have xq: "x = real_of_int nx * qx"
    using x \<open>0 \<le> x\<close> by (simp add: fl_def Let_def nx_def qx_def)
  have yq: "y = real_of_int ny * qy"
    using y ypos by (simp add: fl_def Let_def ny_def qy_def)
  have "binade y \<noteq> 1024"
  proof
    assume "binade y = 1024"
    then have "2 powi 1024 \<le> y"
      using binade_lower [of y] by simp
    with \<open>y < 2 ^ 1024\<close> show False
      by simp
  qed
  then have "y < 2 ^ 53 * qy"
    using binade_upper [of y] by (simp add: two_powi_split qy_def)
  then have "real_of_int ny * qy < 2 ^ 53 * qy"
    unfolding yq .
  then have "real_of_int ny < 2 ^ 53"
    using q by simp
  then have ny: "ny < 2 ^ 53"
    by simp
  show ?thesis
  proof (cases "binade x = binade y")
    case True
    then have qq: "qx = qy"
      by (simp add: qx_def qy_def)
    have "real_of_int nx * qy < real_of_int ny * qy"
      using \<open>x < y\<close> unfolding xq yq qq .
    then have "real_of_int nx < real_of_int ny"
      using q by simp
    then have "nx \<le> ny - 1"
      by linarith
    then have "real_of_int nx \<le> real_of_int ny - 1"
      by linarith
    then have "real_of_int nx * qy \<le> (real_of_int ny - 1) * qy"
      using q by (intro mult_right_mono) simp_all
    also have "\<dots> = real_of_int ny * qy - qy"
      by (simp add: algebra_simps)
    finally have le: "x \<le> y - qy"
      unfolding xq yq qq .
    have "real_of_int ny \<le> 2 ^ 53"
      using ny by simp
    then have "real_of_int ny * qy \<le> 2 ^ 53 * qy"
      using q by (intro mult_right_mono) simp_all
    then have "y \<le> 2 ^ 53 * qy"
      unfolding yq .
    then have "y / 2 ^ 53 \<le> qy"
      by (simp add: field_simps)
    with le have "x \<le> y - y / 2 ^ 53"
      by linarith
    then show ?thesis
      by (simp add: algebra_simps)
  next
    case False
    then have lt: "binade x < binade y"
      using binade_mono [of x y] \<open>x < y\<close> by simp
    have "binade x \<noteq> 1024"
      using lt binade_range(2) [of y] by simp
    then have "x < 2 ^ 53 * qx"
      using binade_upper [of x] by (simp add: two_powi_split qx_def)
    then have "real_of_int nx * qx < 2 ^ 53 * qx"
      unfolding xq .
    then have "real_of_int nx < 2 ^ 53"
      using q by simp
    then have "nx < 2 ^ 53"
      by simp
    then have "nx \<le> 2 ^ 53 - 1"
      by simp
    then have "real_of_int nx \<le> real_of_int (2 ^ 53 - 1)"
      by (simp only: of_int_le_iff)
    then have "real_of_int nx \<le> 2 ^ 53 - 1"
      by simp
    then have "real_of_int nx * qx \<le> (2 ^ 53 - 1) * qx"
      using q by (intro mult_right_mono) simp_all
    then have "x \<le> (2 ^ 53 - 1) * qx"
      unfolding xq .
    also have "\<dots> = 2 powi (binade x + 1) * (1 - 1 / 2 ^ 53)"
      by (subst two_powi_split) (simp add: algebra_simps qx_def)
    also have "\<dots> \<le> 2 powi (binade y) * (1 - 1 / 2 ^ 53)"
      using lt by (intro mult_right_mono power_int_increasing) simp_all
    also have "\<dots> \<le> y * (1 - 1 / 2 ^ 53)"
      using lt binade_range(1) [of x] binade_lower [of y] by (intro mult_right_mono) simp_all
    finally show ?thesis .
  qed
qed

section \<open>Properties of the double operations\<close>

lemma fl_tenth: "fl (1 / 10) = 3602879701896397 / 36028797018963968"
  by (simp add: fl_eval)

lemma tenth_eq: "tenth = Finite (3602879701896397 / 36028797018963968)"
  by (simp add: tenth_def round_to_double_def fl_tenth)

lemma is_double_tenth: "is_double tenth"
  by (simp add: tenth_eq is_double_def fl_eval)

lemma tenth_pos: "0 < tenth"
  by (simp add: tenth_eq zero_double_def)

lemma zero_le_zero_double [simp]: "(0::double) \<le> 0"
  by (simp add: zero_double_def)

lemma round_to_double_mono:
  assumes "x \<le> y"
  shows "round_to_double x \<le> round_to_double y"
  using fl_mono [OF assms] by (simp add: round_to_double_def Let_def)

lemma round_to_double_nonneg: "0 \<le> x \<Longrightarrow> 0 \<le> round_to_double x"
  using fl_nonneg [of x] by (simp add: round_to_double_def Let_def zero_double_def)

lemma round_to_double_is_double: "is_double (Finite x) \<Longrightarrow> round_to_double x = Finite x"
  by (auto simp: is_double_def round_to_double_def Let_def)

lemma is_double_std_max: "is_double a \<Longrightarrow> is_double b \<Longrightarrow> is_double (std_max a b)"
  by (simp add: std_max_def)

lemma std_max_tenth_idem [simp]: "std_max tenth (std_max tenth x) = std_max tenth x"
  by (simp add: std_max_def tenth_eq)

lemma std_max_zero_nonneg: "0 \<le> std_max 0 w"
  by (cases w) (simp_all add: std_max_def zero_double_def)

lemma std_max_zero_cases:
  "std_max 0 w = 0 \<or> std_max 0 w = w \<and> 0 < w"
  by (simp add: std_max_def)

lemma minus_zero: "is_double a \<Longrightarrow> a - 0 = a"
  by (cases a) (simp_all add: zero_double_def round_to_double_is_double)

lemma double_of_int_pos:
  assumes "0 < n" and "n \<le> 2 ^ 31"
  shows "\<exists>y. double_of_int n = Finite y \<and> 1 \<le> y"
proof -
  have "1 \<le> real_of_int n" and "real_of_int n \<le> 2 ^ 31"
    using assms by simp_all
  then have "1 \<le> fl (real_of_int n)" and "fl (real_of_int n) \<le> fl (2 ^ 31)"
    by (simp_all add: fl_ge_one fl_mono)
  moreover have "fl (2 ^ 31) = 2 ^ 31"
    by (simp add: fl_eval)
  ultimately show ?thesis
    by (simp add: double_of_int_def round_to_double_def Let_def)
qed

lemma nonneg_plus_times:
  assumes "0 \<le> t" and "0 \<le> w" and "0 < n" and "n \<le> 2 ^ 31"
  shows "0 \<le> t + double_of_int n * w"
proof -
  from double_of_int_pos [OF assms(3,4)] obtain y where
    y: "double_of_int n = Finite y" "1 \<le> y"
    by blast
  have "0 \<le> Finite y * w"
  proof (cases w)
    case (Finite x)
    then have "0 \<le> y * x"
      using assms(2) y(2) by (simp add: zero_double_def)
    then show ?thesis
      using Finite by (simp add: round_to_double_nonneg)
  next
    case PlusInf
    then show ?thesis
      using y(2) by (simp add: zero_double_def)
  qed (use assms(2) in \<open>simp_all add: zero_double_def\<close>)
  then obtain c where c: "Finite y * w = c" "0 \<le> c"
    by blast
  have "0 \<le> t + c"
  proof (cases t)
    case t: (Finite a)
    show ?thesis
    proof (cases c)
      case (Finite b)
      then have "0 \<le> a + b"
        using assms(1) c(2) t by (simp add: zero_double_def)
      then show ?thesis
        using t Finite by (simp add: round_to_double_nonneg)
    qed (use c(2) t in \<open>simp_all add: zero_double_def\<close>)
  next
    case PlusInf
    then show ?thesis
      using c(2) by (cases c) (simp_all add: zero_double_def)
  qed (use assms(1) in \<open>simp_all add: zero_double_def\<close>)
  then show ?thesis
    by (simp add: y(1) c(1))
qed

subsection \<open>The conversion to \<^verbatim>\<open>int\<close>\<close>

text \<open>
  A double converts to \<^verbatim>\<open>int\<close> as the claims expect when it is a finite number below
  \<open>2^31\<close>; \<open>number\<close> reads a finite double as a real.
\<close>

definition converts :: "double \<Rightarrow> bool" where
  "converts d = (case d of Finite x \<Rightarrow> x < 2 ^ 31 | _ \<Rightarrow> False)"

definition number :: "double \<Rightarrow> real" where
  "number d = (case d of Finite x \<Rightarrow> x | _ \<Rightarrow> 0)"

lemma int32_id: "is_int n \<Longrightarrow> int32 n = n"
  by (simp add: is_int_def int32_def)

lemma is_int_int32: "is_int (int32 n)"
  by (simp add: is_int_def int32_def)

lemma int32_less: "int32 n < 2 ^ 31"
  using is_int_int32 [of n] by (simp add: is_int_def)


lemma static_cast_int_below_one:
  assumes "case d of Finite x \<Rightarrow> x < 1 | PlusInf \<Rightarrow> False | _ \<Rightarrow> True"
  shows "static_cast_int d \<le> 0"
proof (cases d)
  case (Finite x)
  then have x: "x < 1"
    using assms by simp
  show ?thesis
  proof (cases "0 \<le> x")
    case True
    then have "\<lfloor>x\<rfloor> = 0"
      using x by (simp add: floor_eq_iff)
    then show ?thesis
      using True Finite by (simp add: static_cast_int_def is_int_def)
  next
    case False
    then have "\<lceil>x\<rceil> \<le> 0"
      by (simp add: ceiling_le_iff)
    with False show ?thesis
      using Finite by (simp add: static_cast_int_def Let_def)
  qed
qed (use assms in \<open>simp_all add: static_cast_int_def\<close>)

section \<open>Properties of the pack\<close>

subsection \<open>Auxiliary notions\<close>

text \<open>
  The number of pieces \<^verbatim>\<open>add_partial_item\<close> can add (\<^verbatim>\<open>can_add\<close>), as a function of
  the pack, the request and the floored unit weight.
\<close>

definition can_add :: "pack \<Rightarrow> int \<Rightarrow> double \<Rightarrow> int \<Rightarrow> double \<Rightarrow> int" where
  "can_add p qty weight' max_items max_weight =
     min (int32 (max_items - m_total_items p))
       (min (max 0 (if weight' = 0 then qty
                    else static_cast_int ((max_weight - m_total_weight p) / weight')))
          qty)"



text \<open>
  The aggregates of a pack are consistent with its records as far as the fill loop
  relies on it: the weight is not negative (and not a NaN), and a pack without records
  has the aggregates of a new pack.
\<close>

definition pack_sane :: "pack \<Rightarrow> bool" where
  "pack_sane p =
     (0 \<le> m_total_weight p \<and>
      (if m_items p = [] then m_total_items p = 0 \<and> m_total_weight p = 0 else True))"

subsection \<open>Facts about \<^verbatim>\<open>add_partial_item\<close>\<close>

lemma add_partial_item_eq:
  "add_partial_item p ident len qty w max_items max_weight =
     (if qty \<le> 0 \<or> max_items \<le> 0 \<or> max_weight < 0 then (0, p)
      else if 0 < can_add p qty (std_max 0 w) max_items max_weight
      then (can_add p qty (std_max 0 w) max_items max_weight,
            p\<lparr>m_items := m_items p @
                  [new_item ident (max 1 len)
                     (can_add p qty (std_max 0 w) max_items max_weight) (std_max 0 w)],
              m_total_items := int32 (m_total_items p +
                  can_add p qty (std_max 0 w) max_items max_weight),
              m_total_weight := m_total_weight p +
                  double_of_int (can_add p qty (std_max 0 w) max_items max_weight) *
                    std_max 0 w,
              m_max_length := max (m_max_length p) (max 1 len)\<rparr>)
      else (can_add p qty (std_max 0 w) max_items max_weight, p))"
  unfolding add_partial_item_def can_add_def Let_def
  by (simp del: max.absorb1 max.absorb2 max.absorb3 max.absorb4)

lemma can_add_le_requested: "can_add p qty weight' max_items max_weight \<le> qty"
  by (simp add: can_add_def)

lemma can_add_less: "can_add p qty weight' max_items max_weight < 2 ^ 31"
  using int32_less [of "max_items - m_total_items p"] by (simp add: can_add_def)

lemma add_partial_item_rejects:
  "fst (add_partial_item p ident len qty w max_items max_weight) \<le> 0 \<Longrightarrow>
   snd (add_partial_item p ident len qty w max_items max_weight) = p"
  by (auto simp: add_partial_item_eq split: if_splits)

lemma add_partial_item_number:
  "m_pack_number (snd (add_partial_item p ident len qty w max_items max_weight)) = m_pack_number p"
  by (simp add: add_partial_item_eq)

lemma add_partial_item_records:
  "m_items (snd (add_partial_item p ident len qty w max_items max_weight)) =
     m_items p @
     (if 0 < fst (add_partial_item p ident len qty w max_items max_weight)
      then [new_item ident (max 1 len)
              (fst (add_partial_item p ident len qty w max_items max_weight)) (std_max 0 w)]
      else [])"
  by (simp add: add_partial_item_eq)

lemma add_partial_item_le_requested:
  "0 < qty \<Longrightarrow> fst (add_partial_item p ident len qty w max_items max_weight) \<le> qty"
  by (auto simp: add_partial_item_eq can_add_le_requested)

lemma add_partial_item_sane:
  assumes "pack_sane p"
  shows "pack_sane (snd (add_partial_item p ident len qty w max_items max_weight))"
proof -
  let ?a = "can_add p qty (std_max 0 w) max_items max_weight"
  have "0 \<le> m_total_weight p + double_of_int ?a * std_max 0 w" if "0 < ?a"
  proof (rule nonneg_plus_times)
    show "0 \<le> m_total_weight p"
      using assms by (simp add: pack_sane_def)
    show "0 \<le> std_max 0 w"
      by (rule std_max_zero_nonneg)
    show "0 < ?a"
      by (rule that)
    show "?a \<le> 2 ^ 31"
      using can_add_less [of p qty "std_max 0 w" max_items max_weight] by simp
  qed
  then show ?thesis
    using assms by (simp add: add_partial_item_eq pack_sane_def)
qed

lemma new_pack_sane: "pack_sane (new_pack n)"
  by (simp add: pack_sane_def new_pack_def zero_double_def)

text \<open>
  An item heavier than \<open>max_weight\<close> is refused by every pack of the fill: the
  remaining weight is at most \<open>max_weight\<close>, \<open>max_weight\<close> lies at least one unit in
  the last place below the unit weight, and so the rounded quotient stays below 1.
\<close>

lemma fl_below_one: "fl (1 - 1 / 2 ^ 53) < 1"
  by (simp add: fl_eval)

lemma quotient_below_one:
  assumes "fl m = m" and "fl y = y" and "0 \<le> m" and "m < y" and "y < 2 ^ 1024"
    and "r \<le> m"
  shows "fl (r / y) < 1"
proof -
  have y: "0 < y"
    using assms by simp
  have "m \<le> y * (1 - 1 / 2 ^ 53)"
    using assms(1-5) by (rule fl_gap)
  with assms(6) have "r \<le> y * (1 - 1 / 2 ^ 53)"
    by simp
  then have "r / y \<le> 1 - 1 / 2 ^ 53"
    using y by (simp add: pos_divide_le_eq mult.commute)
  then have "fl (r / y) \<le> fl (1 - 1 / 2 ^ 53)"
    by (rule fl_mono)
  then show ?thesis
    using fl_below_one by (rule le_less_trans)
qed

lemma too_heavy_quotient:
  assumes "0 \<le> t" and "is_double max_weight" and "is_double w" and "max_weight < w"
    and "0 \<le> max_weight"
  shows "static_cast_int ((max_weight - t) / w) \<le> 0"
proof -
  from assms(4,5) obtain m where mw: "max_weight = Finite m" and m: "0 \<le> m"
    by (cases max_weight; cases w) (simp_all add: zero_double_def)
  have flm: "fl m = m" "m < 2 ^ 1024"
    using assms(2) by (simp_all add: mw is_double_def abs_less_iff)
  have rem: "max_weight - t = MinusInf \<or> (\<exists>r. max_weight - t = Finite r \<and> r \<le> m)"
  proof (cases t)
    case (Finite x)
    then have "0 \<le> x"
      using assms(1) by (simp add: zero_double_def)
    then have "fl (m - x) \<le> fl m"
      by (intro fl_mono) simp
    then show ?thesis
      using flm by (simp add: mw Finite round_to_double_def Let_def)
  qed (use assms(1) in \<open>simp_all add: mw zero_double_def\<close>)
  show ?thesis
  proof (rule static_cast_int_below_one)
    show "case (max_weight - t) / w of Finite x \<Rightarrow> x < 1 | PlusInf \<Rightarrow> False | _ \<Rightarrow> True"
    proof (cases w)
      case (Finite y)
      then have y: "fl y = y" "y < 2 ^ 1024" "m < y"
        using assms(3,4) by (simp_all add: is_double_def mw abs_less_iff)
      from rem show ?thesis
      proof
        assume "max_weight - t = MinusInf"
        then show ?thesis
          using Finite y(3) m by simp
      next
        assume "\<exists>r. max_weight - t = Finite r \<and> r \<le> m"
        then obtain r where r: "max_weight - t = Finite r" "r \<le> m"
          by blast
        have "fl (r / y) < 1"
          using flm(1) y(1) m y(3,2) r(2) by (rule quotient_below_one)
        then show ?thesis
          using Finite y(3) m by (simp add: r(1) round_to_double_def Let_def)
      qed
    next
      case PlusInf
      from rem show ?thesis
        by (auto simp: PlusInf)
    qed (use assms(4) in \<open>simp_all add: mw\<close>)
  qed
qed

lemma too_heavy_rejected:
  assumes "pack_sane p" and "is_double max_weight" and "is_double w"
    and "max_weight < w" and "0 \<le> max_weight"
  shows "fst (add_partial_item p ident len qty w max_items max_weight) \<le> 0"
proof -
  have pos: "0 < w"
    using assms(4,5) by (cases max_weight; cases w) (simp_all add: zero_double_def)
  then have w: "std_max 0 w = w" "w \<noteq> 0"
    by (auto simp: std_max_def zero_double_def)
  have "static_cast_int ((max_weight - m_total_weight p) / w) \<le> 0"
    using assms by (intro too_heavy_quotient) (simp_all add: pack_sane_def)
  then have "can_add p qty (std_max 0 w) max_items max_weight \<le> 0"
    using w by (simp add: can_add_def)
  then show ?thesis
    by (simp add: add_partial_item_eq)
qed

text \<open>
  A pack without records takes at least one piece of an item that is not heavier than
  \<open>max_weight\<close>, as long as the quotient \<open>max_weight / weight\<close> converts to \<^verbatim>\<open>int\<close>.
\<close>

lemma empty_pack_accepts:
  assumes "m_items p = []" "m_total_items p = 0" "m_total_weight p = 0"
    and "1 \<le> qty" "1 \<le> max_items" "is_int max_items"
    and "w \<le> max_weight" "tenth \<le> max_weight" "is_double max_weight"
    and "std_max 0 w = 0 \<or> converts (max_weight / std_max 0 w)"
  shows "1 \<le> fst (add_partial_item p ident len qty w max_items max_weight)"
proof -
  have guard: "\<not> max_weight < 0"
    using assms(8) by (cases max_weight) (simp_all add: tenth_eq zero_double_def)
  have "1 \<le> max 0 (if std_max 0 w = 0 then qty
                 else static_cast_int ((max_weight - m_total_weight p) / std_max 0 w))"
  proof (cases "std_max 0 w = 0")
    case True
    then show ?thesis
      using assms(4) by simp
  next
    case False
    then have w: "std_max 0 w = w" "0 < w"
      using std_max_zero_cases [of w] by simp_all
    have c: "converts (max_weight / w)"
      using False assms(10) w(1) by simp
    then obtain q where q: "max_weight / w = Finite q" "q < 2 ^ 31"
      by (cases "max_weight / w") (simp_all add: converts_def)
    obtain y where y: "w = Finite y" "0 < y"
      using w(2) q(1) assms(7) by (cases w; cases max_weight) (simp_all add: zero_double_def)
    obtain m where m: "max_weight = Finite m" "y \<le> m"
      using assms(7) q(1) y by (cases max_weight) simp_all
    have "1 \<le> m / y"
      using y(2) m(2) by (simp add: pos_le_divide_eq)
    then have "1 \<le> fl (m / y)"
      by (rule fl_ge_one)
    then have "1 \<le> q"
      using q(1) y(2) by (simp add: m(1) y(1) round_to_double_def Let_def split: if_splits)
    then have "1 \<le> \<lfloor>q\<rfloor>"
      by (simp add: le_floor_iff)
    moreover have "\<lfloor>q\<rfloor> < 2 ^ 31"
      using q(2) by (simp add: floor_less_iff)
    ultimately have "1 \<le> static_cast_int (max_weight / w)"
      using \<open>1 \<le> q\<close> by (simp add: q(1) static_cast_int_def is_int_def)
    moreover have "max_weight - m_total_weight p = max_weight"
      using assms(3,9) by (simp add: minus_zero)
    ultimately show ?thesis
      using False w(1) by simp
  qed
  moreover have "int32 (max_items - m_total_items p) = max_items"
    using assms(2,6) by (simp add: int32_id)
  ultimately have "1 \<le> can_add p qty (std_max 0 w) max_items max_weight"
    using assms(4,5) by (simp add: can_add_def)
  then show ?thesis
    using assms(4,5) guard by (simp add: add_partial_item_eq)
qed

subsection \<open>Evaluation at given numbers\<close>

text \<open>The rules that run the operations of the pack on given numbers.\<close>

lemmas double_eval =
  round_to_double_def double_of_int_def std_max_def zero_double_def static_cast_int_def
  is_int_def int32_def tenth_eq fl_eval

lemmas pack_eval = add_partial_item_def add_item_def get_total_weight_def new_pack_def
  new_item_def is_empty_def double_eval

subsection \<open>Claims about the pack\<close>





text \<open>
  Claim C4. \<^verbatim>\<open>add_partial_item\<close> is a total function (it is \<^verbatim>\<open>noexcept\<close> and has no
  failing branch). It returns 0 whenever the requested quantity or \<open>max_items\<close> is not
  positive or \<open>max_weight\<close> is negative, and whenever it returns 0, for whatever reason,
  the pack after the call is the pack before it: records and aggregates are unchanged.
\<close>

theorem add_partial_item_defensive:
  "(qty \<le> 0 \<or> max_items \<le> 0 \<or> max_weight < 0 \<longrightarrow>
      fst (add_partial_item p ident len qty w max_items max_weight) = 0) \<and>
   (fst (add_partial_item p ident len qty w max_items max_weight) = 0 \<longrightarrow>
      snd (add_partial_item p ident len qty w max_items max_weight) = p)"
proof (intro conjI impI)
  assume "qty \<le> 0 \<or> max_items \<le> 0 \<or> max_weight < 0"
  then show "fst (add_partial_item p ident len qty w max_items max_weight) = 0"
    by (simp add: add_partial_item_def)
next
  assume "fst (add_partial_item p ident len qty w max_items max_weight) = 0"
  then show "snd (add_partial_item p ident len qty w max_items max_weight) = p"
    by (simp add: add_partial_item_rejects)
qed

text \<open>
  Two calls that return 0: a request for no pieces, and a request to a pack that is full
  by count (ten pieces under \<open>max_items = 10\<close>).
\<close>

theorem add_partial_item_defensive_witness:
  "fst (add_partial_item (new_pack 1) 7 100 0 (Finite 1) 10 (Finite 25)) = 0 \<and>
   snd (add_partial_item (new_pack 1) 7 100 0 (Finite 1) 10 (Finite 25)) = new_pack 1 \<and>
   fst (add_partial_item
          ((new_pack 1)\<lparr>m_items := [new_item 1 100 10 (Finite 1)], m_total_items := 10,
             m_total_weight := Finite 10, m_max_length := 100\<rparr>)
          2 50 5 (Finite 1) 10 (Finite 25)) = 0 \<and>
   snd (add_partial_item
          ((new_pack 1)\<lparr>m_items := [new_item 1 100 10 (Finite 1)], m_total_items := 10,
             m_total_weight := Finite 10, m_max_length := 100\<rparr>)
          2 50 5 (Finite 1) 10 (Finite 25)) =
     (new_pack 1)\<lparr>m_items := [new_item 1 100 10 (Finite 1)], m_total_items := 10,
          m_total_weight := Finite 10, m_max_length := 100\<rparr>"
proof -
  let ?full = "(new_pack 1)\<lparr>m_items := [new_item 1 100 10 (Finite 1)], m_total_items := 10,
          m_total_weight := Finite 10, m_max_length := 100\<rparr>"
  have guard: "(0::int) \<le> 0 \<or> (10::int) \<le> 0 \<or> Finite 25 < (0::double)"
    by simp
  have zero1: "fst (add_partial_item (new_pack 1) 7 100 0 (Finite 1) 10 (Finite 25)) = 0"
    using add_partial_item_defensive [of 0 10 "Finite 25" "new_pack 1" 7 100 "Finite 1"] guard
    by blast
  have same1: "snd (add_partial_item (new_pack 1) 7 100 0 (Finite 1) 10 (Finite 25)) = new_pack 1"
    using add_partial_item_defensive [of 0 10 "Finite 25" "new_pack 1" 7 100 "Finite 1"] zero1
    by blast
  have zero2: "fst (add_partial_item ?full 2 50 5 (Finite 1) 10 (Finite 25)) = 0"
    by (simp add: pack_eval)
  have same2: "snd (add_partial_item ?full 2 50 5 (Finite 1) 10 (Finite 25)) = ?full"
    using add_partial_item_defensive [of 5 10 "Finite 25" ?full 2 50 "Finite 1"] zero2 by blast
  show ?thesis
    using zero1 same1 zero2 same2 by simp
qed




text \<open>
  The case that the amended claim leaves out: the pack is full by count (10 of 10) and
  the item has \<^verbatim>\<open>INT_MAX\<close> pieces. The \<^verbatim>\<open>int\<close> sum wraps around to a negative number,
  which is below \<open>max_items\<close>, and \<^verbatim>\<open>add_item\<close> accepts the item.
\<close>

lemma add_item_quantity_wraps:
  "fst (add_item
          ((new_pack 1)\<lparr>m_items := [new_item 1 100 10 (Finite 1)], m_total_items := 10,
             m_total_weight := Finite 10, m_max_length := 100\<rparr>)
          (new_item 2 100 2147483647 (Finite 0)) 10 (Finite 25)) \<and>
   m_total_items (snd (add_item
          ((new_pack 1)\<lparr>m_items := [new_item 1 100 10 (Finite 1)], m_total_items := 10,
             m_total_weight := Finite 10, m_max_length := 100\<rparr>)
          (new_item 2 100 2147483647 (Finite 0)) 10 (Finite 25))) = - 2147483639"
  by (simp add: pack_eval)

section \<open>Properties of the fill loops\<close>

subsection \<open>Invariants of the packs\<close>

text \<open>
  The recursion equations of the loops are unfolded one step at a time, by hand.
\<close>

declare sequential_while.simps [simp del]

text \<open>A non-empty list of packs, all of which satisfy \<open>P\<close>.\<close>

definition packs_all :: "(pack \<Rightarrow> bool) \<Rightarrow> pack list \<Rightarrow> bool" where
  "packs_all P ps = (ps \<noteq> [] \<and> list_all P ps)"

lemma packs_all_update_last:
  "packs_all P ps \<Longrightarrow> P q \<Longrightarrow> packs_all P (butlast ps @ [q])"
  by (auto simp: packs_all_def list_all_iff dest: in_set_butlastD)

lemma packs_all_last: "packs_all P ps \<Longrightarrow> P (last ps)"
  by (simp add: packs_all_def list_all_iff)

lemma packs_all_snoc: "packs_all P ps \<Longrightarrow> P q \<Longrightarrow> packs_all P (ps @ [q])"
  by (simp add: packs_all_def)

lemma sequential_while_invariant:
  assumes "\<And>n. P (new_pack n)"
    and "\<And>p qty. P p \<Longrightarrow>
           P (snd (add_partial_item p (get_id i) (get_length i) qty (get_weight i)
                    max_items max_weight))"
    and "packs_all P (packs s)"
  shows "packs_all P
           (packs (sequential_while i max_items max_weight max_safe_reserve remaining_quantity s))"
  using assms
proof (induction i max_items max_weight max_safe_reserve remaining_quantity s
       rule: sequential_while.induct)
  case (1 i mi mw reserve remaining s)
  let ?r = "add_partial_item (last (packs s)) (get_id i) (get_length i)
              remaining (get_weight i) mi mw"
  have upd: "packs_all P (butlast (packs s) @ [snd ?r])"
    using "1.prems" by (intro packs_all_update_last) (auto dest: packs_all_last)
  have ext: "packs_all P ((butlast (packs s) @ [snd ?r]) @ [new_pack n])" for n
    using upd "1.prems"(1) by (rule packs_all_snoc)
  show ?case
    apply (subst sequential_while.simps)
    using "1.IH" "1.prems" upd ext
    apply (simp add: Let_def)
    done
qed

lemma sequential_for_invariant:
  assumes "\<And>n. P (new_pack n)"
    and "\<And>i p qty. i \<in> set items \<Longrightarrow> 0 < get_quantity i \<Longrightarrow> P p \<Longrightarrow>
           P (snd (add_partial_item p (get_id i) (get_length i) qty (get_weight i)
                    max_items max_weight))"
    and "packs_all P (packs s)"
  shows "packs_all P (packs (sequential_for items max_items max_weight max_safe_reserve s))"
  using assms
proof (induction items arbitrary: s)
  case Nil
  then show ?case by simp
next
  case (Cons i rest)
  show ?case
  proof (cases "get_quantity i \<le> 0")
    case True
    then show ?thesis
      using Cons.IH [of "s\<lparr>exit_log := exit_log s @ [Skipped]\<rparr>"] Cons.prems by simp
  next
    case False
    have "packs_all P
            (packs (sequential_while i max_items max_weight max_safe_reserve (get_quantity i) s))"
      using Cons.prems False by (intro sequential_while_invariant) auto
    then show ?thesis
      using Cons.IH Cons.prems False by simp
  qed
qed

lemma sequential_fill_invariant:
  assumes "\<And>n. P (new_pack n)"
    and "\<And>i p qty. i \<in> set items \<Longrightarrow> 0 < get_quantity i \<Longrightarrow> P p \<Longrightarrow>
           P (snd (add_partial_item p (get_id i) (get_length i) qty (get_weight i)
                    max_items max_weight))"
  shows "packs_all P (packs (sequential_fill items max_items max_weight))"
  unfolding sequential_fill_def Let_def
  using assms by (intro sequential_for_invariant) (auto simp: packs_all_def)

subsection \<open>The worker threads and the merge\<close>

declare worker_while.simps [simp del]

lemma worker_while_invariant:
  assumes "\<And>n. P (new_pack n)"
    and "\<And>p qty. P p \<Longrightarrow>
           P (snd (add_partial_item p (get_id i) (get_length i) qty (get_weight i)
                    max_items max_weight))"
    and "packs_all P (local_packs s)"
  shows "packs_all P
           (local_packs (worker_while fetch i max_items max_weight max_safe_reserve
                           remaining_quantity s))"
  using assms
proof (induction fetch i max_items max_weight max_safe_reserve remaining_quantity s
       rule: worker_while.induct)
  case (1 fetch i mi mw reserve remaining s)
  let ?r = "add_partial_item (last (local_packs s)) (get_id i) (get_length i)
              remaining (get_weight i) mi mw"
  have upd: "packs_all P (butlast (local_packs s) @ [snd ?r])"
    using "1.prems" by (intro packs_all_update_last) (auto dest: packs_all_last)
  have ext: "packs_all P ((butlast (local_packs s) @ [snd ?r]) @ [new_pack n])" for n
    using upd "1.prems"(1) by (rule packs_all_snoc)
  show ?case
    apply (subst worker_while.simps)
    using "1.IH" "1.prems" upd ext
    apply (simp add: Let_def)
    done
qed

lemma worker_for_invariant:
  assumes "\<And>n. P (new_pack n)"
    and "\<And>(i::item) p qty. P p \<Longrightarrow>
           P (snd (add_partial_item p (get_id i) (get_length i) qty (get_weight i)
                    max_items max_weight))"
    and "packs_all P (local_packs s)"
  shows "packs_all P
           (local_packs (worker_for fetch chunk max_items max_weight max_safe_reserve s))"
  using assms
proof (induction chunk arbitrary: s)
  case Nil
  then show ?case by simp
next
  case (Cons i rest)
  have "packs_all P
          (local_packs (worker_while fetch i max_items max_weight max_safe_reserve
                          (get_quantity i) s))"
  proof (rule worker_while_invariant)
    show "P (new_pack n)" for n
      by (rule Cons.prems(1))
    show "P (snd (add_partial_item p (get_id i) (get_length i) qty (get_weight i)
                    max_items max_weight))" if "P p" for p qty
      using that by (rule Cons.prems(2))
    show "packs_all P (local_packs s)"
      by (rule Cons.prems(3))
  qed
  then show ?case
    using Cons.IH Cons.prems by simp
qed

lemma worker_thread_invariant:
  assumes "\<And>n. P (new_pack n)"
    and "\<And>(i::item) p qty. P p \<Longrightarrow>
           P (snd (add_partial_item p (get_id i) (get_length i) qty (get_weight i)
                    (max 1 max_items) (std_max tenth max_weight)))"
    and "list_all P result_packs"
  shows "list_all P
           (worker_thread fetch items start_idx end_idx max_items max_weight result_packs)"
proof -
  let ?s = "worker_for fetch (take (end_idx - start_idx) (drop start_idx items))
              (max 1 max_items) (std_max tenth max_weight)
              (min 20000 ((end_idx - start_idx) div 10 + 500))
              \<lparr>local_packs = [new_pack (fetch 0)], local_pack_number = fetch 0,
               local_safety_counter = 0, fetch_count = 1\<rparr>"
  have "packs_all P (local_packs ?s)"
    using assms(1,2) by (intro worker_for_invariant) (auto simp: packs_all_def)
  then have "list_all P (take k (local_packs ?s))" for k
    by (auto simp: packs_all_def list_all_iff dest: in_set_takeD)
  then show ?thesis
    using assms(3) by (simp add: worker_thread_def Let_def)
qed

lemma parallel_fill_invariant:
  assumes "\<And>n. P (new_pack n)"
    and "\<And>(i::item) p qty. P p \<Longrightarrow>
           P (snd (add_partial_item p (get_id i) (get_length i) qty (get_weight i)
                    (max 1 max_items) (std_max tenth max_weight)))"
  shows "list_all P (parallel_fill merge_order fetch num_threads items max_items max_weight)"
proof -
  have "list_all P
          (foldl (\<lambda>result_packs t.
                    if t < length ranges
                    then worker_thread (fetch t) items (fst (ranges ! t)) (snd (ranges ! t))
                           max_items max_weight result_packs
                    else result_packs)
             acc merge_order)"
    if "list_all P acc" for acc ranges
    using that
  proof (induction merge_order arbitrary: acc)
    case Nil
    then show ?case by simp
  next
    case (Cons t rest)
    have "list_all P (worker_thread (fetch t) items (fst (ranges ! t)) (snd (ranges ! t))
                        max_items max_weight acc)"
      using assms Cons.prems by (intro worker_thread_invariant) auto
    then show ?case
      using Cons.IH Cons.prems by simp
  qed
  then show ?thesis
    by (simp add: parallel_fill_def Let_def)
qed

text \<open>
  The bound on the number of pieces. Under a limit \<open>max_items\<close> within 32 bits, the
  count of a pack stays between 0 and \<open>max_items\<close>, and no addition or subtraction of
  \<^verbatim>\<open>add_partial_item\<close> wraps around.
\<close>

definition count_within :: "int \<Rightarrow> pack \<Rightarrow> bool" where
  "count_within max_items p = (0 \<le> m_total_items p \<and> m_total_items p \<le> max_items)"

lemma add_partial_item_count_within:
  assumes "count_within max_items p" and "is_int max_items"
  shows "count_within max_items (snd (add_partial_item p ident len qty w max_items max_weight))"
proof -
  let ?a = "can_add p qty (std_max 0 w) max_items max_weight"
  have "is_int (max_items - m_total_items p)"
    using assms by (simp add: count_within_def is_int_def)
  then have "?a \<le> max_items - m_total_items p"
    by (simp add: can_add_def int32_id)
  then have "int32 (m_total_items p + ?a) = m_total_items p + ?a \<and>
             m_total_items p + ?a \<le> max_items" if "0 < ?a"
    using that assms by (simp add: int32_id is_int_def count_within_def)
  then show ?thesis
    using assms(1) by (simp add: add_partial_item_eq count_within_def)
qed

lemma pack_items_count_bound:
  assumes "is_int max_items"
  shows "list_all (count_within (max 1 max_items))
           (pack_items m_num_threads merge_order fetch items max_items max_weight)"
proof -
  let ?P = "count_within (max 1 max_items)"
  have int: "is_int (max 1 max_items)"
    using assms by (simp add: is_int_def)
  have new: "?P (new_pack n)" for n
    by (simp add: count_within_def new_pack_def)
  have add: "?P (snd (add_partial_item p ident len qty w (max 1 max_items) mw))" if "?P p"
    for p ident len qty w mw
    using that int by (rule add_partial_item_count_within)
  have "packs_all ?P (packs (sequential_fill items (max 1 max_items) (std_max tenth max_weight)))"
    using new add by (intro sequential_fill_invariant) auto
  moreover have "list_all ?P (parallel_fill merge_order fetch n items
                    (max 1 max_items) (std_max tenth max_weight))" for n
    using new add by (intro parallel_fill_invariant) auto
  ultimately show ?thesis
    by (simp add: pack_items_def Let_def packs_all_def)
qed

subsection \<open>Pack numbers of the sequential fill\<close>

text \<open>
  The packs are numbered \<open>1, 2, \<dots>\<close> in list order, and \<open>pack_number\<close> is the number
  of the last one.
\<close>

definition numbered :: "fill_state \<Rightarrow> bool" where
  "numbered s =
     (packs s \<noteq> [] \<and>
      map m_pack_number (packs s) = map int [1..<Suc (length (packs s))] \<and>
      pack_number s = int (length (packs s)))"

lemma numbered_update_last:
  assumes "numbered s" and "m_pack_number q = m_pack_number (last (packs s))"
    and "pack_number s' = pack_number s" and "packs s' = butlast (packs s) @ [q]"
  shows "numbered s'"
proof -
  have ne: "packs s \<noteq> []" using assms(1) by (simp add: numbered_def)
  have "map m_pack_number (butlast (packs s) @ [q]) =
          butlast (map m_pack_number (packs s)) @ [last (map m_pack_number (packs s))]"
    using ne assms(2) by (simp add: map_butlast last_map)
  also have "\<dots> = map m_pack_number (packs s)"
    using ne by simp
  finally show ?thesis
    using assms by (simp add: numbered_def)
qed

lemma numbered_snoc:
  assumes "numbered s" and "pack_number s' = pack_number s + 1"
    and "packs s' = packs s @ [new_pack (pack_number s + 1)]"
  shows "numbered s'"
  using assms by (simp add: numbered_def new_pack_def)

lemma sequential_while_numbered:
  "numbered s \<Longrightarrow>
   numbered (sequential_while i max_items max_weight max_safe_reserve remaining_quantity s)"
proof (induction i max_items max_weight max_safe_reserve remaining_quantity s
       rule: sequential_while.induct)
  case (1 i mi mw reserve remaining s)
  let ?r = "add_partial_item (last (packs s)) (get_id i) (get_length i)
              remaining (get_weight i) mi mw"
  have upd: "numbered (s\<lparr>safety_counter := c, packs := butlast (packs s) @ [snd ?r],
                           exit_log := l\<rparr>)" for c l
    using "1.prems" by (rule numbered_update_last) (simp_all add: add_partial_item_number)
  have upd': "numbered (s\<lparr>safety_counter := c, packs := butlast (packs s) @ [snd ?r]\<rparr>)" for c
    using "1.prems" by (rule numbered_update_last) (simp_all add: add_partial_item_number)
  have ext: "numbered (s\<lparr>safety_counter := c, pack_number := pack_number s + 1,
                packs := butlast (packs s) @ [snd ?r, new_pack (pack_number s + 1)]\<rparr>)" for c
    using upd' [of c] by (rule numbered_snoc) simp_all
  have tick: "numbered (s\<lparr>safety_counter := c, exit_log := l\<rparr>)"
       "numbered (s\<lparr>exit_log := l\<rparr>)" for c l
    using "1.prems" by (simp_all add: numbered_def)
  show ?case
    apply (subst sequential_while.simps)
    using "1.IH" upd upd' ext tick
    apply (simp add: Let_def)
    done
qed

lemma sequential_for_numbered:
  "numbered s \<Longrightarrow> numbered (sequential_for items max_items max_weight max_safe_reserve s)"
proof (induction items arbitrary: s)
  case Nil
  then show ?case by simp
next
  case (Cons i rest)
  have "numbered (s\<lparr>exit_log := exit_log s @ [Skipped]\<rparr>)"
    using Cons.prems by (simp add: numbered_def)
  then show ?case
    using Cons.IH Cons.prems by (simp add: sequential_while_numbered)
qed

lemma sequential_fill_numbered: "numbered (sequential_fill items max_items max_weight)"
  unfolding sequential_fill_def Let_def
  by (rule sequential_for_numbered) (simp add: numbered_def new_pack_def)

text \<open>
  Claim C7. Whenever \<^verbatim>\<open>pack_items\<close> takes the sequential branch, the list it returns
  is not empty and its pack numbers, in list order (the order of creation, since packs
  are only ever appended), are \<open>1, 2, \<dots>, N\<close> for the number \<open>N\<close> of packs: ascending,
  without gaps, and pairwise distinct.
\<close>

theorem sequential_numbering:
  assumes "length items < 5000 \<or> limit_num_threads m_num_threads = 1"
  shows "pack_items m_num_threads merge_order fetch items max_items max_weight \<noteq> [] \<and>
     map m_pack_number (pack_items m_num_threads merge_order fetch items max_items max_weight) =
       map int [1..<Suc (length (pack_items m_num_threads merge_order fetch items
                                   max_items max_weight))] \<and>
     distinct (map m_pack_number
                 (pack_items m_num_threads merge_order fetch items max_items max_weight))"
proof -
  let ?s = "sequential_fill items (max 1 max_items) (std_max tenth max_weight)"
  have eq: "pack_items m_num_threads merge_order fetch items max_items max_weight = packs ?s"
    using assms by (auto simp: pack_items_def Let_def)
  have n: "numbered ?s" by (rule sequential_fill_numbered)
  then have "distinct (map m_pack_number (packs ?s))"
    by (simp add: numbered_def distinct_map inj_on_def)
  with n show ?thesis
    unfolding eq by (simp add: numbered_def)
qed

section \<open>Concrete runs\<close>

text \<open>
  The scenarios of the specification, evaluated by rewriting with the definitions: two
  items that share one pack, and one item of thirty pieces that fills three packs of ten.
\<close>

lemmas fill_eval =
  pack_items_def sequential_fill_def sequential_while.simps max_iterations_def pack_eval

lemma pack_items_two_items:
  "pack_items 4 [] (\<lambda>t k. 0)
     [new_item 1 100 5 (Finite (5 / 2)), new_item 2 200 3 (Finite 4)] 10 (Finite 25) =
     [\<lparr>m_pack_number = 1,
       m_items = [new_item 1 100 5 (Finite (5 / 2)), new_item 2 200 3 (Finite 4)],
       m_total_items = 8, m_total_weight = Finite (49 / 2), m_max_length = 200\<rparr>]"
  by (simp add: fill_eval)

lemma pack_items_three_packs:
  "pack_items 4 [] (\<lambda>t k. 0) [new_item 1 100 30 (Finite 1)] 10 (Finite 1000) =
     [\<lparr>m_pack_number = 1, m_items = [new_item 1 100 10 (Finite 1)],
       m_total_items = 10, m_total_weight = Finite 10, m_max_length = 100\<rparr>,
      \<lparr>m_pack_number = 2, m_items = [new_item 1 100 10 (Finite 1)],
       m_total_items = 10, m_total_weight = Finite 10, m_max_length = 100\<rparr>,
      \<lparr>m_pack_number = 3, m_items = [new_item 1 100 10 (Finite 1)],
       m_total_items = 10, m_total_weight = Finite 10, m_max_length = 100\<rparr>]"
  by (simp add: fill_eval)

text \<open>Claim C7 at the second scenario: the packs are numbered 1, 2, 3.\<close>

theorem sequential_numbering_witness:
  "length [new_item 1 100 30 (Finite 1)] < 5000 \<and>
   map m_pack_number
     (pack_items 4 [] (\<lambda>t k. 0) [new_item 1 100 30 (Finite 1)] 10 (Finite 1000)) = [1, 2, 3] \<and>
   distinct (map m_pack_number
     (pack_items 4 [] (\<lambda>t k. 0) [new_item 1 100 30 (Finite 1)] 10 (Finite 1000)))"
proof -
  have h: "length [new_item 1 100 30 (Finite 1)] < 5000 \<or> limit_num_threads 4 = 1"
    by simp
  have len: "length (pack_items 4 [] (\<lambda>t k. 0) [new_item 1 100 30 (Finite 1)] 10 (Finite 1000))
               = 3"
    by (simp add: pack_items_three_packs)
  have "[1..<Suc 3] = [1, 2, 3]"
    by (simp add: upt_rec)
  with sequential_numbering [OF h, of "[]" "\<lambda>t k. 0" 10 "Finite 1000"] show ?thesis
    by (simp add: len)
qed

subsection \<open>The weight limit\<close>

lemma fl_unit_weight: "fl (11409 / 1000) = 6422696018583749 / 562949953421312"
  by (simp add: fl_eval)

lemma epsilon_eq: "epsilon = Finite (4835703278458517 / 4835703278458516698824704)"
  by (simp add: epsilon_def round_to_double_def fl_eval)

text \<open>
  Claim C1 at one item of 10821000 pieces of unit weight \<^verbatim>\<open>11.409\<close> under the limits
  20000000 and \<^verbatim>\<open>123456789.0\<close>. The quotient of doubles
  \<^verbatim>\<open>123456789.0 / 11.409\<close> rounds up to \<^verbatim>\<open>10821000.0\<close>, the first call of
  \<^verbatim>\<open>add_partial_item\<close> takes all the pieces into pack 1, and the weight of the pack
  becomes \<open>123456789 + 2^-26\<close>: more than \<open>max_weight + 1e-9\<close>, as a real number and in
  the comparison of doubles (where \<^verbatim>\<open>max_weight + 1e-9\<close> is \<^verbatim>\<open>max_weight\<close> again). The
  returned pack breaks the weight bound of the claim, and so does the one acceptance
  that filled it, which started from a new pack.
\<close>

theorem pack_items_exceeds_max_weight:
  "pack_items 4 [] (\<lambda>t k. 0)
     [new_item 1 100 10821000 (round_to_double (11409 / 1000))] 20000000 (Finite 123456789) =
     [\<lparr>m_pack_number = 1,
       m_items = [new_item 1 100 10821000 (Finite (6422696018583749 / 562949953421312))],
       m_total_items = 10821000,
       m_total_weight = Finite (8285044862877697 / 67108864), m_max_length = 100\<rparr>] \<and>
   snd (add_partial_item (new_pack 1) 1 100 10821000 (round_to_double (11409 / 1000))
          (max 1 20000000) (std_max tenth (Finite 123456789))) =
     \<lparr>m_pack_number = 1,
      m_items = [new_item 1 100 10821000 (Finite (6422696018583749 / 562949953421312))],
      m_total_items = 10821000,
      m_total_weight = Finite (8285044862877697 / 67108864), m_max_length = 100\<rparr> \<and>
   std_max tenth (Finite 123456789) + epsilon = Finite 123456789 \<and>
   \<not> Finite (8285044862877697 / 67108864) \<le> std_max tenth (Finite 123456789) + epsilon \<and>
   (123456789 + 1 / 10 ^ 9 :: real) < 8285044862877697 / 67108864 \<and>
   (8285044862877697 / 67108864 :: real) = 123456789 + 1 / 2 ^ 26"
proof -
  have w: "round_to_double (11409 / 1000) = Finite (6422696018583749 / 562949953421312)"
    by (simp add: round_to_double_def fl_unit_weight)
  have call: "add_partial_item (new_pack 1) 1 100 10821000
          (Finite (6422696018583749 / 562949953421312)) 20000000 (Finite 123456789) =
     (10821000,
      \<lparr>m_pack_number = 1,
       m_items = [new_item 1 100 10821000 (Finite (6422696018583749 / 562949953421312))],
       m_total_items = 10821000,
       m_total_weight = Finite (8285044862877697 / 67108864), m_max_length = 100\<rparr>)"
    by (simp add: pack_eval)
  have limit: "std_max tenth (Finite 123456789) = Finite 123456789"
    by (simp add: std_max_def tenth_eq)
  have run: "pack_items 4 [] (\<lambda>t k. 0)
     [new_item 1 100 10821000 (Finite (6422696018583749 / 562949953421312))] 20000000
     (Finite 123456789) =
     [\<lparr>m_pack_number = 1,
       m_items = [new_item 1 100 10821000 (Finite (6422696018583749 / 562949953421312))],
       m_total_items = 10821000,
       m_total_weight = Finite (8285044862877697 / 67108864), m_max_length = 100\<rparr>]"
    unfolding pack_items_def sequential_fill_def Let_def limit
    by (simp add: sequential_while.simps max_iterations_def new_item_def new_pack_def
          is_empty_def call [unfolded new_item_def new_pack_def] Let_def)
  have sum: "Finite 123456789 + epsilon = Finite 123456789"
    by (simp add: epsilon_eq round_to_double_def fl_eval)
  show ?thesis
    unfolding w run limit sum using call by simp
qed


subsection \<open>The empty-pack fallback\<close>

text \<open>
  Claim C9 at a new pack and a request for five pieces of unit weight \<^verbatim>\<open>1e-9\<close> under
  the limits 10 and 25: the pack has no records and zero aggregates, and the request
  meets every condition of the claim. The quotient \<^verbatim>\<open>25.0 / 1e-9\<close> is \<open>2.5 * 10^10\<close>,
  which no \<^verbatim>\<open>int\<close> holds; the conversion yields \<^verbatim>\<open>INT_MIN\<close>, which is clamped to 0, and
  \<^verbatim>\<open>add_partial_item\<close> returns 0. In \<^verbatim>\<open>pack_items\<close> the item is not too heavy, the
  current pack is empty, and the loop of the item ends at the \<^verbatim>\<open>is_empty\<close> branch: the
  result is the one empty pack.
\<close>

theorem empty_pack_fallback_reached:
  "m_items (new_pack 1) = [] \<and> m_total_items (new_pack 1) = 0 \<and>
   m_total_weight (new_pack 1) = 0 \<and> (1::int) \<le> 5 \<and> (1::int) \<le> 10 \<and>
   tenth \<le> Finite 25 \<and> 0 \<le> round_to_double (1 / 10 ^ 9) \<and>
   round_to_double (1 / 10 ^ 9) \<le> Finite 25 \<and>
   (Finite 25 - m_total_weight (new_pack 1)) / round_to_double (1 / 10 ^ 9) =
     Finite 25000000000 \<and>
   static_cast_int (Finite 25000000000) = - (2 ^ 31) \<and>
   fst (add_partial_item (new_pack 1) 1 100 5 (round_to_double (1 / 10 ^ 9)) 10 (Finite 25)) = 0 \<and>
   exit_log (sequential_fill [new_item 1 100 5 (round_to_double (1 / 10 ^ 9))]
               (max 1 10) (std_max tenth (Finite 25))) = [Empty_pack] \<and>
   pack_items 4 [] (\<lambda>t k. 0) [new_item 1 100 5 (round_to_double (1 / 10 ^ 9))] 10 (Finite 25) =
     [new_pack 1]"
proof -
  let ?w = "Finite (4835703278458517 / 4835703278458516698824704)"
  have w: "round_to_double (1 / 10 ^ 9) = ?w"
    using epsilon_eq by (simp only: epsilon_def)
  have quotient: "(Finite 25 - m_total_weight (new_pack 1)) / ?w = Finite 25000000000"
    by (simp add: new_pack_def double_eval)
  have cast: "static_cast_int (Finite 25000000000) = - (2 ^ 31)"
    by (simp add: static_cast_int_def is_int_def)
  have call: "add_partial_item (new_pack 1) 1 100 5 ?w 10 (Finite 25) = (0, new_pack 1)"
    by (simp add: pack_eval)
  have limit: "std_max tenth (Finite 25) = Finite 25"
    by (simp add: std_max_def tenth_eq)
  have state: "sequential_fill [new_item 1 100 5 ?w] (max 1 10) (Finite 25) =
      \<lparr>packs = [new_pack 1], pack_number = 1, safety_counter = 1, exit_log = [Empty_pack]\<rparr>"
    unfolding sequential_fill_def Let_def
    by (simp add: sequential_while.simps max_iterations_def new_item_def new_pack_def
          is_empty_def call [unfolded new_item_def new_pack_def] Let_def)
  have run: "pack_items 4 [] (\<lambda>t k. 0) [new_item 1 100 5 ?w] 10 (Finite 25) = [new_pack 1]"
    using state by (simp add: pack_items_def Let_def limit)
  show ?thesis
    unfolding w limit state run quotient cast call
    by (simp add: new_pack_def tenth_eq zero_double_def)
qed

end
